theory Spec2Isabelle
  imports Main "HOL-Library.Word"
begin

unbundle bit_operations_syntax

section \<open>Strings\<close>

text \<open>
  A JavaScript string is a sequence of 16-bit code units. String literals of the source
  are ASCII and are written here through \<open>js\<close>.
\<close>

type_synonym code_unit = "16 word"
type_synonym jsstring = "code_unit list"

definition js :: "string \<Rightarrow> jsstring" where
  "js = map of_char"

text \<open>
  The line terminators of ECMAScript: LF, CR, LINE SEPARATOR and PARAGRAPH SEPARATOR.
  The pattern character \<open>.\<close> (without the \<open>s\<close> flag) matches every code unit but these.
\<close>

definition is_line_terminator :: "code_unit \<Rightarrow> bool" where
  "is_line_terminator c \<longleftrightarrow> c = 0x000A \<or> c = 0x000D \<or> c = 0x2028 \<or> c = 0x2029"

section \<open>Regular expressions as \<open>RegExp.prototype.test\<close> runs them\<close>

text \<open>
  The pattern constructs that \<open>youtubeRegex\<close> (page.tsx, lines 36-37) is built from.
  Groups only capture, which \<open>test\<close> does not observe, so they have no node.
\<close>

datatype regex =
    Eps
  | Chr code_unit
  | Dot
  | Bol
  | Eol
  | Seq regex regex
  | Alt regex regex
  | Opt regex
  | Plus regex

text \<open>
  A match state is the number of code units before the current position together with
  the input that is still ahead. A matcher returns the states it can end in, in the order
  in which backtracking tries them.
\<close>

type_synonym mstate = "nat \<times> jsstring"

text \<open>
  \<open>r+\<close>: one iteration, then greedily further ones. An iteration that consumed nothing is
  not repeated (the empty check of the ECMAScript RepeatMatcher). The counter bounds the
  iterations by the length of the input ahead, since each repeated one consumes input.
\<close>

primrec repeat :: "(mstate \<Rightarrow> mstate list) \<Rightarrow> nat \<Rightarrow> mstate \<Rightarrow> mstate list" where
  "repeat m 0 st = m st"
| "repeat m (Suc k) st =
     concat (map (\<lambda>st'. (if length (snd st') < length (snd st) then repeat m k st' else []) @ [st'])
                 (m st))"

primrec rmatch :: "regex \<Rightarrow> mstate \<Rightarrow> mstate list" where
  "rmatch Eps st = [st]"
| "rmatch (Chr c) st =
     (case snd st of [] \<Rightarrow> [] | x # xs \<Rightarrow> if x = c then [(Suc (fst st), xs)] else [])"
| "rmatch Dot st =
     (case snd st of [] \<Rightarrow> []
      | x # xs \<Rightarrow> if is_line_terminator x then [] else [(Suc (fst st), xs)])"
| "rmatch Bol st = (if fst st = 0 then [st] else [])"
| "rmatch Eol st = (if snd st = [] then [st] else [])"
| "rmatch (Seq r1 r2) st = concat (map (rmatch r2) (rmatch r1 st))"
| "rmatch (Alt r1 r2) st = rmatch r1 st @ rmatch r2 st"
| "rmatch (Opt r) st = rmatch r st @ [st]"
| "rmatch (Plus r) st = repeat (rmatch r) (length (snd st)) st"

text \<open>
  \<open>test\<close> on a regular expression without the \<open>g\<close> and \<open>y\<close> flags starts at index 0 and
  tries every start index up to the length of the input until a match is found.
\<close>

fun exec_from :: "regex \<Rightarrow> nat \<Rightarrow> jsstring \<Rightarrow> bool" where
  "exec_from r n [] = (rmatch r (n, []) \<noteq> [])"
| "exec_from r n (x # xs) = (rmatch r (n, x # xs) \<noteq> [] \<or> exec_from r (Suc n) xs)"

definition test :: "regex \<Rightarrow> jsstring \<Rightarrow> bool" where
  "test r inp = exec_from r 0 inp"

text \<open>The language of a pattern without assertions: the words it can consume.\<close>

inductive_set plus_lang :: "jsstring set \<Rightarrow> jsstring set" for L :: "jsstring set" where
  one: "u \<in> L \<Longrightarrow> u \<in> plus_lang L"
| more: "u \<in> L \<Longrightarrow> v \<in> plus_lang L \<Longrightarrow> u @ v \<in> plus_lang L"

primrec lang :: "regex \<Rightarrow> jsstring set" where
  "lang Eps = {[]}"
| "lang (Chr c) = {[c]}"
| "lang Dot = {[x] | x. \<not> is_line_terminator x}"
| "lang Bol = {}"
| "lang Eol = {}"
| "lang (Seq r1 r2) = {u @ v | u v. u \<in> lang r1 \<and> v \<in> lang r2}"
| "lang (Alt r1 r2) = lang r1 \<union> lang r2"
| "lang (Opt r) = insert [] (lang r)"
| "lang (Plus r) = plus_lang (lang r)"

primrec assertion_free :: "regex \<Rightarrow> bool" where
  "assertion_free Eps = True"
| "assertion_free (Chr c) = True"
| "assertion_free Dot = True"
| "assertion_free Bol = False"
| "assertion_free Eol = False"
| "assertion_free (Seq r1 r2) = (assertion_free r1 \<and> assertion_free r2)"
| "assertion_free (Alt r1 r2) = (assertion_free r1 \<and> assertion_free r2)"
| "assertion_free (Opt r) = assertion_free r"
| "assertion_free (Plus r) = assertion_free r"

section \<open>validateUrl\<close>

fun str :: "string \<Rightarrow> regex" where
  "str [] = Eps"
| "str [c] = Chr (of_char c)"
| "str (c # cs) = Seq (Chr (of_char c)) (str cs)"

text \<open>
  \<^verbatim>\<open>/^(https?:\/\/)?(www\.)?(youtube\.com|youtu\.?be)\/.+$/\<close>, between the two assertions.
\<close>

definition youtubeBody :: regex where
  "youtubeBody =
     Seq (Opt (Seq (str ''http'') (Seq (Opt (str ''s'')) (str ''://''))))
    (Seq (Opt (str ''www.''))
    (Seq (Alt (str ''youtube.com'') (Seq (str ''youtu'') (Seq (Opt (str ''.'')) (str ''be''))))
    (Seq (str ''/'')
         (Plus Dot))))"

definition youtubeRegex :: regex where
  "youtubeRegex = Seq Bol (Seq youtubeBody Eol)"

definition validateUrl :: "jsstring \<Rightarrow> bool" where
  "validateUrl input = test youtubeRegex input"

section \<open>The analysis result and its JSON text\<close>

datatype sentiment = positive | neutral | negative

text \<open>
  \<open>interface AnalysisResult\<close> (lines 20-27). The three \<open>number\<close> fields are modelled on the
  integers, which is what the data model and the only literal of the source put there.
\<close>

record AnalysisResult =
  talkTimeRatio :: int
  questionsCount :: int
  longestMonologue :: int
  sentiment :: sentiment
  insights :: "jsstring list"
  transcript :: jsstring

definition mockResult :: AnalysisResult where
  "mockResult = \<lparr>
     talkTimeRatio = 65,
     questionsCount = 12,
     longestMonologue = 42,
     sentiment = positive,
     insights = [
       js ''Customer showed strong interest in pricing options'',
       js ''Sales rep effectively addressed objections'',
       js ''Good use of open-ended questions in the first half'',
       js ''Consider reducing monologue length to increase engagement''],
     transcript =
       js ''Sales Rep: Hello, thank you for calling. How can I help you today?'' @ [0x0A] @
       js ''Customer: Hi, I'' @ [0x27] @ js ''m interested in your premium package...'' @ [0x0A] @
       js ''[Full transcript would be here]'' \<rparr>"

text \<open>The values that \<open>JSON.stringify\<close> and \<open>JSON.parse\<close> work on (numbers: integers only).\<close>

datatype jsvalue =
    JNull
  | JBool bool
  | JNum int
  | JStr jsstring
  | JArr "jsvalue list"
  | JObj "(jsstring \<times> jsvalue) list"

definition sentiment_string :: "sentiment \<Rightarrow> jsstring" where
  "sentiment_string s =
     (case s of positive \<Rightarrow> js ''positive'' | neutral \<Rightarrow> js ''neutral'' | negative \<Rightarrow> js ''negative'')"

text \<open>The object that holds an \<open>AnalysisResult\<close>, its properties in the order of the literal.\<close>

definition result_object :: "AnalysisResult \<Rightarrow> jsvalue" where
  "result_object r = JObj [
     (js ''talkTimeRatio'', JNum (talkTimeRatio r)),
     (js ''questionsCount'', JNum (questionsCount r)),
     (js ''longestMonologue'', JNum (longestMonologue r)),
     (js ''sentiment'', JStr (sentiment_string (sentiment r))),
     (js ''insights'', JArr (map JStr (insights r))),
     (js ''transcript'', JStr (transcript r))]"

subsection \<open>\<open>JSON.stringify(value, null, space)\<close>\<close>

definition digit_unit :: "nat \<Rightarrow> code_unit" where
  "digit_unit d = 0x30 + of_nat d"

fun decimal :: "nat \<Rightarrow> jsstring" where
  "decimal n = (if n < 10 then [digit_unit n] else decimal (n div 10) @ [digit_unit (n mod 10)])"

declare decimal.simps [simp del]

text \<open>
  The integers that a JavaScript number holds exactly and that Number::toString writes out
  digit by digit (Number.isSafeInteger).
\<close>

definition safe_integer :: "int \<Rightarrow> bool" where
  "safe_integer n \<longleftrightarrow> - (2 ^ 53) < n \<and> n < 2 ^ 53"

text \<open>
  Number::toString on a safe integer: its decimal digits. Beyond that range JavaScript
  prints the shortest digits that identify the number, and an exponent from \<open>10^21\<close> on;
  that text is left open here.
\<close>

definition number_to_string :: "int \<Rightarrow> jsstring" where
  "number_to_string n =
     (if safe_integer n
      then (if n < 0 then 0x2D # decimal (nat (- n)) else decimal (nat n))
      else undefined n)"

definition is_leading_surrogate :: "code_unit \<Rightarrow> bool" where
  "is_leading_surrogate c \<longleftrightarrow> 0xD800 \<le> c \<and> c \<le> 0xDBFF"

definition is_trailing_surrogate :: "code_unit \<Rightarrow> bool" where
  "is_trailing_surrogate c \<longleftrightarrow> 0xDC00 \<le> c \<and> c \<le> 0xDFFF"

definition hex_unit :: "nat \<Rightarrow> code_unit" where
  "hex_unit d = of_nat (if d < 10 then 0x30 + d else 0x61 + (d - 10))"

text \<open>UnicodeEscape: \<open>\u\<close> and the value in four lowercase hexadecimal digits.\<close>

definition UnicodeEscape :: "code_unit \<Rightarrow> jsstring" where
  "UnicodeEscape c =
     (let n = unat c
      in [0x5C, 0x75,
          hex_unit (n div 4096), hex_unit (n div 256 mod 16),
          hex_unit (n div 16 mod 16), hex_unit (n mod 16)])"

text \<open>
  One code point that is a single code unit, as QuoteJSONString writes it: the two-character
  escapes of its table, a Unicode escape for the other control characters and for a
  surrogate that stands alone, the unit itself otherwise.
\<close>

definition quote_unit :: "code_unit \<Rightarrow> jsstring" where
  "quote_unit c =
     (if c = 0x08 then [0x5C, 0x62]
      else if c = 0x09 then [0x5C, 0x74]
      else if c = 0x0A then [0x5C, 0x6E]
      else if c = 0x0C then [0x5C, 0x66]
      else if c = 0x0D then [0x5C, 0x72]
      else if c = 0x22 then [0x5C, 0x22]
      else if c = 0x5C then [0x5C, 0x5C]
      else if c < 0x20 \<or> is_leading_surrogate c \<or> is_trailing_surrogate c then UnicodeEscape c
      else [c])"

text \<open>The code points of the string in turn; a surrogate pair is copied as it is.\<close>

fun quote_units :: "jsstring \<Rightarrow> jsstring" where
  "quote_units [] = []"
| "quote_units [c] = quote_unit c"
| "quote_units (c # d # cs) =
     (if is_leading_surrogate c \<and> is_trailing_surrogate d then c # d # quote_units cs
      else quote_unit c @ quote_units (d # cs))"

definition QuoteJSONString :: "jsstring \<Rightarrow> jsstring" where
  "QuoteJSONString s = [0x22] @ quote_units s @ [0x22]"

fun join :: "jsstring \<Rightarrow> jsstring list \<Rightarrow> jsstring" where
  "join sep [] = []"
| "join sep [x] = x"
| "join sep (x # y # ys) = x @ sep @ join sep (y # ys)"

text \<open>
  SerializeJSONProperty, SerializeJSONObject and SerializeJSONArray with the current
  indentation \<open>ind\<close> and the \<open>gap\<close> of one level.
\<close>

fun serialize :: "jsstring \<Rightarrow> jsstring \<Rightarrow> jsvalue \<Rightarrow> jsstring" where
  "serialize gap ind JNull = js ''null''"
| "serialize gap ind (JBool b) = (if b then js ''true'' else js ''false'')"
| "serialize gap ind (JNum n) = number_to_string n"
| "serialize gap ind (JStr s) = QuoteJSONString s"
| "serialize gap ind (JArr vs) =
     (let stepback = ind; ind = ind @ gap;
          partial = map (serialize gap ind) vs
      in if partial = [] then js ''[]''
         else if gap = [] then js ''['' @ join (js '','') partial @ js '']''
         else js ''['' @ [0x0A] @ ind @ join (js '','' @ [0x0A] @ ind) partial
              @ [0x0A] @ stepback @ js '']'')"
| "serialize gap ind (JObj ps) =
     (let stepback = ind; ind = ind @ gap;
          partial = map (\<lambda>(k, v). QuoteJSONString k @ js '':'' @ (if gap = [] then [] else js '' '')
                                     @ serialize gap ind v) ps
      in if partial = [] then js ''{}''
         else if gap = [] then js ''{'' @ join (js '','') partial @ js ''}''
         else js ''{'' @ [0x0A] @ ind @ join (js '','' @ [0x0A] @ ind) partial
              @ [0x0A] @ stepback @ js ''}'')"

text \<open>A numeric \<open>space\<close> gives a gap of that many spaces, at most ten.\<close>

definition JSON_stringify :: "jsvalue \<Rightarrow> nat \<Rightarrow> jsstring" where
  "JSON_stringify v space = serialize (replicate (min 10 space) 0x20) [] v"

subsection \<open>\<open>JSON.parse(text)\<close>\<close>
















section \<open>The page: component state, timers and downloads\<close>

datatype download_type = type_json | type_transcript

record download =
  blob_data :: jsstring
  blob_type :: jsstring
  file_name :: jsstring

text \<open>
  The four \<open>useState\<close> cells of \<open>SalesCallAnalyzer\<close> (lines 30-33), and the two things the
  handlers leave in the browser: the callbacks registered with \<open>setTimeout\<close> that have not
  run yet, oldest first and each labelled with the URL whose submission registered it, and
  the files handed to the user so far.
\<close>

record page =
  url :: jsstring
  isLoading :: bool
  result :: "AnalysisResult option"
  error :: "jsstring option"
  timers :: "jsstring list"
  downloads :: "download list"

definition initial :: page where
  "initial = \<lparr> url = [], isLoading = False, result = None, error = None,
               timers = [], downloads = [] \<rparr>"

text \<open>Lines 43-44: the first two statements of \<open>handleSubmit\<close>.\<close>

definition clearPrior :: "page \<Rightarrow> page" where
  "clearPrior w = (w\<lparr>error := None\<rparr>)\<lparr>result := None\<rparr>"

text \<open>Lines 54-70: the callback given to \<open>setTimeout\<close>.\<close>

definition timeoutCallback :: "page \<Rightarrow> page" where
  "timeoutCallback w = (w\<lparr>result := Some mockResult\<rparr>)\<lparr>isLoading := False\<rparr>"

definition setTimeout :: "page \<Rightarrow> page" where
  "setTimeout w = w\<lparr>timers := timers w @ [url w]\<rparr>"

definition handleSubmit :: "page \<Rightarrow> page" where
  "handleSubmit w =
     (let w = clearPrior w
      in if \<not> validateUrl (url w)
         then w\<lparr>error := Some (js ''Please enter a valid YouTube URL'')\<rparr>
         else setTimeout (w\<lparr>isLoading := True\<rparr>))"

text \<open>The oldest pending callback runs (all have the same delay of 2000 ms).\<close>

definition timerFires :: "page \<Rightarrow> page" where
  "timerFires w = (case timers w of [] \<Rightarrow> w | t # ts \<Rightarrow> timeoutCallback (w\<lparr>timers := ts\<rparr>))"

definition handleDownload :: "download_type \<Rightarrow> page \<Rightarrow> page" where
  "handleDownload type w =
     (case result w of
        None \<Rightarrow> w
      | Some r \<Rightarrow>
          let data = (if type = type_json then JSON_stringify (result_object r) 2 else transcript r);
              blob = (data, if type = type_json then js ''application/json'' else js ''text/plain'');
              name = js ''sales-analysis.'' @ (if type = type_json then js ''json'' else js ''txt'')
          in w\<lparr>downloads := downloads w
                 @ [\<lparr>blob_data = fst blob, blob_type = snd blob, file_name = name\<rparr>]\<rparr>)"

text \<open>
  The events of the page: typing into the input (\<open>onChange\<close>, line 147), submitting the
  form, a timer running out, and a click on one of the two download buttons.
\<close>

datatype event = Change jsstring | Submit | Timeout | Download download_type

fun step :: "event \<Rightarrow> page \<Rightarrow> page" where
  "step (Change v) w = w\<lparr>url := v\<rparr>"
| "step Submit w = handleSubmit w"
| "step Timeout w = timerFires w"
| "step (Download t) w = handleDownload t w"

text \<open>
  What the rendered page lets happen: the submit button is \<open>disabled={isLoading || !url}\<close>
  (line 159), the download buttons exist only under \<open>result &&\<close> (line 179), and a timer
  can only run out when one is pending.
\<close>

fun enabled :: "event \<Rightarrow> page \<Rightarrow> bool" where
  "enabled (Change v) w = True"
| "enabled Submit w = (\<not> (isLoading w \<or> url w = []))"
| "enabled Timeout w = (timers w \<noteq> [])"
| "enabled (Download t) w = (result w \<noteq> None)"

fun run :: "event list \<Rightarrow> page \<Rightarrow> page" where
  "run [] w = w"
| "run (e # es) w = run es (step e w)"

fun gated :: "event list \<Rightarrow> page \<Rightarrow> bool" where
  "gated [] w = True"
| "gated (e # es) w = (enabled e w \<and> gated es (step e w))"

section \<open>Predicates used in the properties\<close>

text \<open>The states a matcher has to end in for the language \<open>L\<close>, started in \<open>st\<close>.\<close>

definition ends :: "jsstring set \<Rightarrow> mstate \<Rightarrow> mstate set" where
  "ends L st = {(fst st + length u, t) | u t. snd st = u @ t \<and> u \<in> L}"

text \<open>
  A URL of the shape scheme, \<open>www.\<close>, host, \<open>/\<close>, rest: scheme and \<open>www.\<close> optional, the
  host one of \<open>hosts\<close>, the rest not empty and made of code units that satisfy \<open>ok\<close>.
\<close>

definition url_shape :: "jsstring list \<Rightarrow> (code_unit \<Rightarrow> bool) \<Rightarrow> jsstring \<Rightarrow> bool" where
  "url_shape hosts ok s \<longleftrightarrow>
     (\<exists>scheme \<in> set [[], js ''http://'', js ''https://''].
      \<exists>www \<in> set [[], js ''www.''].
      \<exists>host \<in> set hosts.
        let p = scheme @ www @ host @ js ''/''
        in take (length p) s = p \<and> drop (length p) s \<noteq> [] \<and> list_all ok (drop (length p) s))"

text \<open>The hosts that the pattern \<^verbatim>\<open>(youtube\.com|youtu\.?be)\<close> accepts.\<close>

definition accepted_hosts :: "jsstring list" where
  "accepted_hosts = [js ''youtube.com'', js ''youtu.be'', js ''youtube'']"

text \<open>
  The hosts of the specification: \<open>youtube.com\<close>, \<open>youtu.be\<close>, and \<open>youtu.be\<close> with a stray
  period, that is with one more period put in at any place.
\<close>

definition stray_period :: "jsstring \<Rightarrow> jsstring list" where
  "stray_period h = map (\<lambda>i. take i h @ js ''.'' @ drop i h) [0..<Suc (length h)]"

definition claimed_hosts :: "jsstring list" where
  "claimed_hosts = [js ''youtube.com'', js ''youtu.be''] @ stray_period (js ''youtu.be'')"

text \<open>What the page shows of the request: the loading flag, the result and the error.\<close>

definition visible :: "page \<Rightarrow> bool \<times> AnalysisResult option \<times> jsstring option" where
  "visible w = (isLoading w, result w, error w)"

text \<open>
  The state Failed of the specification: not loading, no result, an error message that is
  not empty.
\<close>

definition failed_state :: "page \<Rightarrow> bool" where
  "failed_state w \<longleftrightarrow>
     \<not> isLoading w \<and> result w = None \<and> (case error w of None \<Rightarrow> False | Some m \<Rightarrow> m \<noteq> [])"



definition loading_exclusive :: "page \<Rightarrow> bool" where
  "loading_exclusive w \<longleftrightarrow> (isLoading w \<longrightarrow> result w = None \<and> error w = None)"

definition one_in_flight :: "page \<Rightarrow> bool" where
  "one_in_flight w \<longleftrightarrow> length (timers w) = (if isLoading w then 1 else 0)"

section \<open>The matcher decides the language of the pattern\<close>

lemma endsI: "snd st = u @ t \<Longrightarrow> u \<in> L \<Longrightarrow> (fst st + length u, t) \<in> ends L st"
  by (auto simp: ends_def)

lemma endsE: "x \<in> ends L st \<Longrightarrow> (\<And>u t. x = (fst st + length u, t) \<Longrightarrow> snd st = u @ t \<Longrightarrow> u \<in> L \<Longrightarrow> P) \<Longrightarrow> P"
  by (auto simp: ends_def)

lemma repeat_sub:
  assumes m: "\<And>st. set (m st) = ends L st"
  shows "set (repeat m k st) \<subseteq> ends (plus_lang L) st"
proof (induction k arbitrary: st)
  case 0
  show ?case using m by (auto simp: ends_def intro: plus_lang.one)
next
  case (Suc k)
  show ?case
  proof
    fix x assume "x \<in> set (repeat m (Suc k) st)"
    then obtain st' where st': "st' \<in> set (m st)"
      and x: "x = st' \<or> x \<in> set (repeat m k st')"
      by (auto split: if_splits)
    from st' m obtain u t where u: "st' = (fst st + length u, t)" "snd st = u @ t" "u \<in> L"
      by (auto elim: endsE)
    from x show "x \<in> ends (plus_lang L) st"
    proof
      assume "x = st'"
      with u show ?thesis by (auto simp: ends_def intro: plus_lang.one)
    next
      assume "x \<in> set (repeat m k st')"
      with Suc.IH obtain v t' where v: "x = (fst st' + length v, t')" "snd st' = v @ t'" "v \<in> plus_lang L"
        by (blast elim: endsE)
      have "u @ v \<in> plus_lang L" using u(3) v(3) by (rule plus_lang.more)
      moreover have "snd st = (u @ v) @ t'" using u v by simp
      moreover have "x = (fst st + length (u @ v), t')" using u v by simp
      ultimately show ?thesis unfolding ends_def by blast
    qed
  qed
qed

lemma repeat_sup:
  assumes m: "\<And>st. set (m st) = ends L st"
  shows "u \<in> plus_lang L \<Longrightarrow> snd st = u @ t \<Longrightarrow> length (snd st) \<le> k
           \<Longrightarrow> (fst st + length u, t) \<in> set (repeat m k st)"
proof (induction u arbitrary: st k rule: plus_lang.induct)
  case (one u)
  then have "(fst st + length u, t) \<in> set (m st)" using m by (auto simp: ends_def)
  then show ?case by (cases k) auto
next
  case (more a v)
  show ?case
  proof (cases "a = []")
    case True
    with more show ?thesis by simp
  next
    case False
    let ?st' = "(fst st + length a, v @ t)"
    have in_m: "?st' \<in> set (m st)" using m more.hyps(1) more.prems(1) by (auto simp: ends_def)
    from False more.prems obtain k' where k: "k = Suc k'" by (cases k) auto
    have shorter: "length (snd ?st') < length (snd st)" using False more.prems(1) by simp
    have "length (snd ?st') \<le> k'" using shorter more.prems(2) k by simp
    then have "(fst ?st' + length v, t) \<in> set (repeat m k' ?st')"
      using more.IH[of ?st' k'] by simp
    then have "(fst st + length (a @ v), t) \<in> set (repeat m k' ?st')" by (simp add: add.assoc)
    with in_m shorter show ?thesis unfolding k by (auto intro!: bexI[of _ ?st'])
  qed
qed

lemma repeat_ends:
  assumes m: "\<And>st. set (m st) = ends L st" and k: "length (snd st) \<le> k"
  shows "set (repeat m k st) = ends (plus_lang L) st"
proof
  show "set (repeat m k st) \<subseteq> ends (plus_lang L) st" using m by (rule repeat_sub)
  show "ends (plus_lang L) st \<subseteq> set (repeat m k st)"
    using repeat_sup[OF m _ _ k] by (auto simp: ends_def)
qed

lemma rmatch_ends: "assertion_free r \<Longrightarrow> set (rmatch r st) = ends (lang r) st"
proof (induction r arbitrary: st)
  case Eps
  show ?case by (cases st) (auto simp: ends_def)
next
  case (Chr c)
  show ?case by (cases st) (auto simp: ends_def split: list.splits)
next
  case Dot
  show ?case
  proof (cases st)
    case (Pair n s)
    show ?thesis
    proof (cases s)
      case Nil
      with Pair show ?thesis by (auto simp: ends_def)
    next
      case (Cons x xs)
      have "ends (lang Dot) (n, x # xs) = (if is_line_terminator x then {} else {(Suc n, xs)})"
        unfolding ends_def by (auto simp: Cons_eq_append_conv)
      with Pair Cons show ?thesis by simp
    qed
  qed
next
  case (Seq r1 r2)
  then have 1: "\<And>st. set (rmatch r1 st) = ends (lang r1) st"
    and 2: "\<And>st. set (rmatch r2 st) = ends (lang r2) st" by simp_all
  show ?case
  proof (intro set_eqI iffI)
    fix x assume "x \<in> set (rmatch (Seq r1 r2) st)"
    then obtain y where "y \<in> ends (lang r1) st" "x \<in> ends (lang r2) y"
      using 1 2 by auto
    then show "x \<in> ends (lang (Seq r1 r2)) st"
      by (fastforce simp: ends_def)
  next
    fix x assume "x \<in> ends (lang (Seq r1 r2)) st"
    then obtain u v t where x: "x = (fst st + length (u @ v), t)" "snd st = (u @ v) @ t"
      "u \<in> lang r1" "v \<in> lang r2" by (auto simp: ends_def)
    then have "(fst st + length u, v @ t) \<in> ends (lang r1) st" by (auto simp: ends_def)
    moreover have "x \<in> ends (lang r2) (fst st + length u, v @ t)" using x by (auto simp: ends_def)
    ultimately show "x \<in> set (rmatch (Seq r1 r2) st)" using 1 2 by auto
  qed
next
  case (Alt r1 r2)
  then show ?case by (auto simp: ends_def)
next
  case (Opt r)
  then show ?case by (cases st) (auto simp: ends_def)
next
  case (Plus r)
  then have "\<And>st. set (rmatch r st) = ends (lang r) st" by simp
  then show ?case by (simp add: repeat_ends)
qed simp_all

lemma exec_from_anchored: "0 < n \<Longrightarrow> \<not> exec_from (Seq Bol r) n s"
  by (induction s arbitrary: n) auto

lemma test_anchored:
  assumes "assertion_free r"
  shows "test (Seq Bol (Seq r Eol)) s \<longleftrightarrow> s \<in> lang r"
proof -
  have "test (Seq Bol (Seq r Eol)) s \<longleftrightarrow> rmatch (Seq Bol (Seq r Eol)) (0, s) \<noteq> []"
    unfolding test_def using exec_from_anchored[of "Suc 0"] by (cases s) auto
  also have "\<dots> \<longleftrightarrow> (\<exists>x \<in> set (rmatch r (0, s)). snd x = [])"
    by (auto simp: concat_eq_Nil_conv split: if_splits)
  also have "\<dots> \<longleftrightarrow> s \<in> lang r"
    using assms by (auto simp: rmatch_ends ends_def)
  finally show ?thesis .
qed

section \<open>The URLs that validateUrl accepts\<close>

lemma lang_str: "lang (str cs) = {js cs}"
  by (induction cs rule: str.induct) (auto simp: js_def)

lemma plus_lang_Dot:
  "plus_lang (lang Dot) = {u. u \<noteq> [] \<and> list_all (\<lambda>c. \<not> is_line_terminator c) u}"
proof (intro set_eqI iffI)
  fix u assume "u \<in> plus_lang (lang Dot)"
  then show "u \<in> {u. u \<noteq> [] \<and> list_all (\<lambda>c. \<not> is_line_terminator c) u}"
    by induction auto
next
  fix u assume "u \<in> {u. u \<noteq> [] \<and> list_all (\<lambda>c. \<not> is_line_terminator c) u}"
  then have "u \<noteq> []" "list_all (\<lambda>c. \<not> is_line_terminator c) u" by simp_all
  then show "u \<in> plus_lang (lang Dot)"
  proof (induction u rule: list_nonempty_induct)
    case (single x)
    then show ?case by (auto intro: plus_lang.one)
  next
    case (cons x xs)
    then have "[x] \<in> lang Dot" "xs \<in> plus_lang (lang Dot)" by auto
    then have "[x] @ xs \<in> plus_lang (lang Dot)" by (rule plus_lang.more)
    then show ?case by simp
  qed
qed

lemma split_at_prefix:
  "(\<exists>rest. s = p @ rest \<and> P rest) \<longleftrightarrow> take (length p) s = p \<and> P (drop (length p) s)"
  by (metis append_eq_conv_conj append_take_drop_id)

lemma assertion_free_str: "assertion_free (str cs)"
  by (induction cs rule: str.induct) auto

lemma assertion_free_youtubeBody: "assertion_free youtubeBody"
  by (simp add: youtubeBody_def assertion_free_str)

lemma validateUrl_lang: "validateUrl s \<longleftrightarrow> s \<in> lang youtubeBody"
  unfolding validateUrl_def youtubeRegex_def
  by (rule test_anchored) (rule assertion_free_youtubeBody)

lemma lang_Plus_Dot:
  "lang (Plus Dot) = {u. u \<noteq> [] \<and> list_all (\<lambda>c. \<not> is_line_terminator c) u}"
  using plus_lang_Dot by simp

lemma lang_scheme:
  "lang (Opt (Seq (str ''http'') (Seq (Opt (str ''s'')) (str ''://''))))
     = {[], js ''http://'', js ''https://''}"
  by (auto simp: lang_str js_def)

lemma lang_www: "lang (Opt (str ''www.'')) = {[], js ''www.''}"
  by (auto simp: lang_str js_def)

lemma lang_host:
  "lang (Alt (str ''youtube.com'') (Seq (str ''youtu'') (Seq (Opt (str ''.'')) (str ''be''))))
     = {js ''youtube.com'', js ''youtu.be'', js ''youtube''}"
  by (auto simp: lang_str js_def)

lemma lang_Seq_iff: "s \<in> lang (Seq r1 r2) \<longleftrightarrow> (\<exists>u v. s = u @ v \<and> u \<in> lang r1 \<and> v \<in> lang r2)"
  by auto

lemma lang_youtubeBody:
  "s \<in> lang youtubeBody \<longleftrightarrow>
     (\<exists>scheme www host rest. s = (scheme @ www @ host @ js ''/'') @ rest
        \<and> scheme \<in> {[], js ''http://'', js ''https://''}
        \<and> www \<in> {[], js ''www.''}
        \<and> host \<in> {js ''youtube.com'', js ''youtu.be'', js ''youtube''}
        \<and> rest \<noteq> [] \<and> list_all (\<lambda>c. \<not> is_line_terminator c) rest)"
proof -
  have "s \<in> lang youtubeBody \<longleftrightarrow>
     (\<exists>scheme www host sl rest. s = scheme @ www @ host @ sl @ rest
        \<and> scheme \<in> {[], js ''http://'', js ''https://''}
        \<and> www \<in> {[], js ''www.''}
        \<and> host \<in> {js ''youtube.com'', js ''youtu.be'', js ''youtube''}
        \<and> sl \<in> {js ''/''}
        \<and> rest \<in> {u. u \<noteq> [] \<and> list_all (\<lambda>c. \<not> is_line_terminator c) u})"
    unfolding youtubeBody_def lang_Seq_iff lang_scheme lang_www lang_host lang_Plus_Dot lang_str
    by blast
  then show ?thesis
    unfolding singleton_iff mem_Collect_eq append_assoc by simp
qed

lemma url_shape_iff:
  "url_shape hosts ok s \<longleftrightarrow>
     (\<exists>scheme www host rest. s = (scheme @ www @ host @ js ''/'') @ rest
        \<and> scheme \<in> {[], js ''http://'', js ''https://''}
        \<and> www \<in> {[], js ''www.''}
        \<and> host \<in> set hosts
        \<and> rest \<noteq> [] \<and> list_all ok rest)"
proof
  assume "url_shape hosts ok s"
  then obtain scheme www host where
    m: "scheme \<in> set [[], js ''http://'', js ''https://'']" "www \<in> set [[], js ''www.'']"
      "host \<in> set hosts"
    and p: "take (length (scheme @ www @ host @ js ''/'')) s = scheme @ www @ host @ js ''/''"
      "drop (length (scheme @ www @ host @ js ''/'')) s \<noteq> []"
      "list_all ok (drop (length (scheme @ www @ host @ js ''/'')) s)"
    unfolding url_shape_def Let_def by blast
  from m have m': "scheme \<in> {[], js ''http://'', js ''https://''}" "www \<in> {[], js ''www.''}"
    by simp_all
  have "s = (scheme @ www @ host @ js ''/'') @ drop (length (scheme @ www @ host @ js ''/'')) s"
    using p(1) by (metis append_take_drop_id)
  with m' m(3) p(2,3) show "\<exists>scheme www host rest. s = (scheme @ www @ host @ js ''/'') @ rest
        \<and> scheme \<in> {[], js ''http://'', js ''https://''}
        \<and> www \<in> {[], js ''www.''}
        \<and> host \<in> set hosts
        \<and> rest \<noteq> [] \<and> list_all ok rest" by blast
next
  assume "\<exists>scheme www host rest. s = (scheme @ www @ host @ js ''/'') @ rest
        \<and> scheme \<in> {[], js ''http://'', js ''https://''}
        \<and> www \<in> {[], js ''www.''}
        \<and> host \<in> set hosts
        \<and> rest \<noteq> [] \<and> list_all ok rest"
  then obtain scheme www host rest where s: "s = (scheme @ www @ host @ js ''/'') @ rest"
    and m: "scheme \<in> set [[], js ''http://'', js ''https://'']" "www \<in> set [[], js ''www.'']"
       "host \<in> set hosts"
    and r: "rest \<noteq> []" "list_all ok rest" by auto
  have "take (length (scheme @ www @ host @ js ''/'')) s = scheme @ www @ host @ js ''/''"
    "drop (length (scheme @ www @ host @ js ''/'')) s = rest"
    unfolding s by simp_all
  with r have "let p = scheme @ www @ host @ js ''/''
        in take (length p) s = p \<and> drop (length p) s \<noteq> [] \<and> list_all ok (drop (length p) s)"
    unfolding Let_def by metis
  with m show "url_shape hosts ok s" unfolding url_shape_def by blast
qed

lemma validateUrl_shape:
  "validateUrl s \<longleftrightarrow> url_shape accepted_hosts (\<lambda>c. \<not> is_line_terminator c) s"
  unfolding validateUrl_lang lang_youtubeBody url_shape_iff accepted_hosts_def by simp

lemma url_shape_mono:
  "url_shape hosts ok s \<Longrightarrow> url_shape hosts (\<lambda>c. True) s"
  unfolding url_shape_iff by (auto simp: list_all_iff)

lemma js_eq_Nil: "js s = [] \<longleftrightarrow> s = []"
  by (simp add: js_def)

lemmas validate_eval =
  validateUrl_def test_def youtubeRegex_def youtubeBody_def js_def is_line_terminator_def

lemma valid_a: "validateUrl (js ''youtu.be/a'')"
  by (simp add: validate_eval)

lemma valid_b: "validateUrl (js ''youtu.be/b'')"
  by (simp add: validate_eval)

lemma invalid_x: "\<not> validateUrl (js ''x'')"
  by (simp add: validate_eval)

lemma validateUrl_explicit:
  "validateUrl s \<longleftrightarrow>
     (\<exists>scheme www host rest.
          s = scheme @ www @ host @ js ''/'' @ rest
        \<and> scheme \<in> {[], js ''http://'', js ''https://''}
        \<and> www \<in> {[], js ''www.''}
        \<and> host \<in> {js ''youtube.com'', js ''youtu.be'', js ''youtube''}
        \<and> rest \<noteq> []
        \<and> (\<forall>c \<in> set rest. c \<noteq> 0x0A \<and> c \<noteq> 0x0D \<and> c \<noteq> 0x2028 \<and> c \<noteq> 0x2029))"
  unfolding validateUrl_lang lang_youtubeBody
  by (simp only: append_assoc list_all_iff is_line_terminator_def de_Morgan_disj)

text \<open>
  C1: validateUrl returns true for exactly the strings that match
  \<^verbatim>\<open>^(https?://)?(www\.)?(youtube\.com|youtu\.?be)/.+$\<close>, and false for every other string, the
  empty one included. Written out, the expression matches: nothing, \<open>http://\<close> or
  \<open>https://\<close>; then nothing or \<open>www.\<close>; then \<open>youtube.com\<close>, \<open>youtu.be\<close> or \<open>youtube\<close>; then
  \<open>/\<close>; then one or more code units none of which is a line terminator (U+000A, U+000D,
  U+2028, U+2029), up to the end of the string. validateUrl is a function of its argument
  alone.
\<close>

theorem validateUrl_matches_pattern:
  "(validateUrl s \<longleftrightarrow>
     (\<exists>scheme www host rest.
          s = scheme @ www @ host @ js ''/'' @ rest
        \<and> scheme \<in> {[], js ''http://'', js ''https://''}
        \<and> www \<in> {[], js ''www.''}
        \<and> host \<in> {js ''youtube.com'', js ''youtu.be'', js ''youtube''}
        \<and> rest \<noteq> []
        \<and> (\<forall>c \<in> set rest. c \<noteq> 0x0A \<and> c \<noteq> 0x0D \<and> c \<noteq> 0x2028 \<and> c \<noteq> 0x2029)))
   \<and> \<not> validateUrl []"
proof
  show "validateUrl s \<longleftrightarrow>
     (\<exists>scheme www host rest.
          s = scheme @ www @ host @ js ''/'' @ rest
        \<and> scheme \<in> {[], js ''http://'', js ''https://''}
        \<and> www \<in> {[], js ''www.''}
        \<and> host \<in> {js ''youtube.com'', js ''youtu.be'', js ''youtube''}
        \<and> rest \<noteq> []
        \<and> (\<forall>c \<in> set rest. c \<noteq> 0x0A \<and> c \<noteq> 0x0D \<and> c \<noteq> 0x2028 \<and> c \<noteq> 0x2029))"
    by (rule validateUrl_explicit)
  show "\<not> validateUrl []" by (simp add: validate_eval)
qed

theorem validateUrl_matches_pattern_witness:
  "js ''https://www.youtube.com/watch?v=abc123''
     = js ''https://'' @ js ''www.'' @ js ''youtube.com'' @ js ''/'' @ js ''watch?v=abc123''
   \<and> validateUrl (js ''https://www.youtube.com/watch?v=abc123'')
   \<and> \<not> validateUrl (js ''https://vimeo.com/123'')"
proof -
  let ?s = "js ''https://www.youtube.com/watch?v=abc123''"
  have e: "?s = js ''https://'' @ js ''www.'' @ js ''youtube.com'' @ js ''/'' @ js ''watch?v=abc123''"
    by (simp add: js_def)
  have t: "\<forall>c \<in> set (js ''watch?v=abc123''). c \<noteq> 0x0A \<and> c \<noteq> 0x0D \<and> c \<noteq> 0x2028 \<and> c \<noteq> 0x2029"
    by (simp add: js_def)
  have n: "js ''watch?v=abc123'' \<noteq> []" by (simp add: js_def)
  have "\<exists>scheme www host rest.
          ?s = scheme @ www @ host @ js ''/'' @ rest
        \<and> scheme \<in> {[], js ''http://'', js ''https://''}
        \<and> www \<in> {[], js ''www.''}
        \<and> host \<in> {js ''youtube.com'', js ''youtu.be'', js ''youtube''}
        \<and> rest \<noteq> []
        \<and> (\<forall>c \<in> set rest. c \<noteq> 0x0A \<and> c \<noteq> 0x0D \<and> c \<noteq> 0x2028 \<and> c \<noteq> 0x2029)"
    using e t n by blast
  then have 1: "validateUrl ?s"
    by (rule iffD2 [OF conjunct1 [OF validateUrl_matches_pattern]])
  have 2: "\<not> validateUrl (js ''https://vimeo.com/123'')"
    by (simp add: validate_eval)
  from e 1 2 show ?thesis by (intro conjI)
qed

text \<open>
  C3, as the specification words it: validateUrl accepts only URLs whose host is
  \<open>youtube.com\<close>, \<open>youtu.be\<close> or \<open>youtu.be\<close> with a stray period. The pattern \<^verbatim>\<open>youtu\.?be\<close>
  makes the period optional, so the host \<open>youtube\<close> is accepted as well:
  \<open>youtube/x\<close> is accepted and has none of the claimed hosts.
\<close>

theorem youtube_without_period_accepted:
  "validateUrl (js ''youtube/x'') \<and> \<not> url_shape claimed_hosts (\<lambda>c. True) (js ''youtube/x'')"
proof -
  have "validateUrl (js ''youtube/x'')" by (simp add: validate_eval)
  moreover have "\<not> url_shape claimed_hosts (\<lambda>c. True) (js ''youtube/x'')"
    by (simp add: url_shape_def claimed_hosts_def stray_period_def js_def Let_def upt_rec)
  ultimately show ?thesis by simp
qed

text \<open>
  C3, amended: validateUrl returns true only when the string consists of an optional
  \<open>http://\<close> or \<open>https://\<close>, an optional \<open>www.\<close>, a host equal to \<open>youtube.com\<close>, \<open>youtu.be\<close> or
  \<open>youtube\<close>, then \<open>/\<close> and one or more code units; every other string is rejected.
\<close>

theorem validateUrl_only_youtube_hosts:
  "validateUrl s \<Longrightarrow> url_shape accepted_hosts (\<lambda>c. True) s"
  unfolding validateUrl_shape by (rule url_shape_mono)

theorem validateUrl_only_youtube_hosts_witness:
  "validateUrl (js ''youtu.be/abc123'')
   \<and> url_shape accepted_hosts (\<lambda>c. True) (js ''youtu.be/abc123'')"
proof -
  have v: "validateUrl (js ''youtu.be/abc123'')" by (simp add: validate_eval)
  from validateUrl_only_youtube_hosts [OF v] v show ?thesis by simp
qed

section \<open>The request cycle\<close>

lemma handleSubmit_valid:
  "validateUrl (url w) \<Longrightarrow>
   handleSubmit w = w\<lparr>error := None, result := None, isLoading := True, timers := timers w @ [url w]\<rparr>"
  by (simp add: handleSubmit_def clearPrior_def setTimeout_def Let_def)

lemma handleSubmit_invalid:
  "\<not> validateUrl (url w) \<Longrightarrow>
   handleSubmit w = w\<lparr>error := Some (js ''Please enter a valid YouTube URL''), result := None\<rparr>"
  by (simp add: handleSubmit_def clearPrior_def Let_def)

text \<open>
  C4: whatever the state before, handleSubmit first clears the error and the result
  (before the URL is validated); with a valid URL the page is then loading with no result
  and no error.
\<close>

theorem submit_clears_prior:
  "error (clearPrior w) = None \<and> result (clearPrior w) = None
   \<and> handleSubmit w =
       (if validateUrl (url w) then setTimeout ((clearPrior w)\<lparr>isLoading := True\<rparr>)
        else (clearPrior w)\<lparr>error := Some (js ''Please enter a valid YouTube URL'')\<rparr>)
   \<and> result (handleSubmit w) = None
   \<and> (validateUrl (url w) \<longrightarrow> error (handleSubmit w) = None \<and> isLoading (handleSubmit w))"
  by (simp add: handleSubmit_def clearPrior_def setTimeout_def Let_def)

theorem submit_clears_prior_witness:
  "validateUrl (url (initial\<lparr>url := js ''youtu.be/a'', result := Some mockResult, error := Some (js ''old'')\<rparr>))
   \<and> result (handleSubmit (initial\<lparr>url := js ''youtu.be/a'', result := Some mockResult, error := Some (js ''old'')\<rparr>)) = None
   \<and> error (handleSubmit (initial\<lparr>url := js ''youtu.be/a'', result := Some mockResult, error := Some (js ''old'')\<rparr>)) = None
   \<and> isLoading (handleSubmit (initial\<lparr>url := js ''youtu.be/a'', result := Some mockResult, error := Some (js ''old'')\<rparr>))"
proof -
  let ?w = "initial\<lparr>url := js ''youtu.be/a'', result := Some mockResult, error := Some (js ''old'')\<rparr>"
  have v: "validateUrl (url ?w)" using valid_a by simp
  with submit_clears_prior [of ?w] show ?thesis by blast
qed

text \<open>
  C5, as the specification words it: with a URL that validateUrl rejects, submit always
  leaves the controller in the state Failed. handleSubmit does not touch the loading flag
  on this path: run while a call is pending, it leaves the page loading, with the error
  set and the call still pending.
\<close>

theorem invalid_submit_while_loading_not_failed:
  "\<not> validateUrl (url (run [Change (js ''youtu.be/a''), Submit, Change (js ''x'')] initial))
   \<and> isLoading (handleSubmit (run [Change (js ''youtu.be/a''), Submit, Change (js ''x'')] initial))
   \<and> timers (handleSubmit (run [Change (js ''youtu.be/a''), Submit, Change (js ''x'')] initial))
       = [js ''youtu.be/a'']
   \<and> error (handleSubmit (run [Change (js ''youtu.be/a''), Submit, Change (js ''x'')] initial))
       = Some (js ''Please enter a valid YouTube URL'')
   \<and> \<not> failed_state (handleSubmit (run [Change (js ''youtu.be/a''), Submit, Change (js ''x'')] initial))"
  using valid_a invalid_x
  by (simp add: handleSubmit_valid handleSubmit_invalid initial_def failed_state_def)

text \<open>
  C5, amended: with a URL that validateUrl rejects, handleSubmit registers no timer and
  does not change the loading flag, leaves no result, and sets the error to a message that
  is not empty. When the page is not loading as it runs (the only time the page enables
  submit), the state it leaves is Failed.
\<close>

theorem invalid_submit_fails_locally:
  "\<not> validateUrl (url w) \<Longrightarrow>
     timers (handleSubmit w) = timers w \<and> isLoading (handleSubmit w) = isLoading w
     \<and> result (handleSubmit w) = None
     \<and> error (handleSubmit w) = Some (js ''Please enter a valid YouTube URL'')
     \<and> js ''Please enter a valid YouTube URL'' \<noteq> []
     \<and> (\<not> isLoading w \<longrightarrow> failed_state (handleSubmit w))"
proof -
  assume v: "\<not> validateUrl (url w)"
  have m: "js ''Please enter a valid YouTube URL'' \<noteq> []" by (simp add: js_eq_Nil)
  show ?thesis
    unfolding handleSubmit_invalid [OF v] failed_state_def using m by simp
qed

theorem invalid_submit_fails_locally_witness:
  "\<not> validateUrl (url (initial\<lparr>url := js ''x''\<rparr>))
   \<and> \<not> isLoading (initial\<lparr>url := js ''x''\<rparr>)
   \<and> timers (handleSubmit (initial\<lparr>url := js ''x''\<rparr>)) = []
   \<and> result (handleSubmit (initial\<lparr>url := js ''x''\<rparr>)) = None
   \<and> error (handleSubmit (initial\<lparr>url := js ''x''\<rparr>)) = Some (js ''Please enter a valid YouTube URL'')
   \<and> failed_state (handleSubmit (initial\<lparr>url := js ''x''\<rparr>))"
proof -
  let ?w = "initial\<lparr>url := js ''x''\<rparr>"
  have v: "\<not> validateUrl (url ?w)" using invalid_x by simp
  have i: "timers ?w = []" "\<not> isLoading ?w" by (simp_all add: initial_def)
  from invalid_submit_fails_locally [OF v] v i show ?thesis by metis
qed

text \<open>
  C6: without a current result handleDownload does nothing at all, for both kinds of
  export: no file is produced and the page is unchanged.
\<close>

theorem export_without_result_is_noop:
  "result w = None \<Longrightarrow> handleDownload t w = w"
  by (simp add: handleDownload_def)

theorem export_without_result_is_noop_witness:
  "result initial = None \<and> handleDownload type_json initial = initial
   \<and> handleDownload type_transcript initial = initial"
  using export_without_result_is_noop [of initial type_json]
    export_without_result_is_noop [of initial type_transcript]
  by (simp add: initial_def)

lemma handleDownload_result: "result (handleDownload t w) = result w"
  by (simp add: handleDownload_def Let_def split: option.splits)

lemma fold_handleDownload_result: "result (fold handleDownload ts w) = result w"
  by (induction ts arbitrary: w) (simp_all add: handleDownload_result)

text \<open>
  C7: exporting the transcript hands out exactly the transcript of the current result, as
  \<open>text/plain\<close> under the name \<open>sales-analysis.txt\<close>, whatever exports were made before.
\<close>

theorem export_transcript_verbatim:
  "result w = Some r \<Longrightarrow>
     downloads (handleDownload type_transcript (fold handleDownload ts w))
       = downloads (fold handleDownload ts w)
         @ [\<lparr>blob_data = transcript r, blob_type = js ''text/plain'',
             file_name = js ''sales-analysis.txt''\<rparr>]"
proof -
  assume "result w = Some r"
  then have "result (fold handleDownload ts w) = Some r"
    by (simp add: fold_handleDownload_result)
  then show ?thesis
    by (simp add: handleDownload_def Let_def js_def)
qed

theorem export_transcript_verbatim_witness:
  "result (timerFires (handleSubmit (initial\<lparr>url := js ''youtu.be/a''\<rparr>))) = Some mockResult
   \<and> downloads (handleDownload type_transcript (fold handleDownload [type_json, type_transcript]
         (timerFires (handleSubmit (initial\<lparr>url := js ''youtu.be/a''\<rparr>)))))
       = downloads (fold handleDownload [type_json, type_transcript]
         (timerFires (handleSubmit (initial\<lparr>url := js ''youtu.be/a''\<rparr>))))
         @ [\<lparr>blob_data = transcript mockResult, blob_type = js ''text/plain'',
             file_name = js ''sales-analysis.txt''\<rparr>]"
proof -
  let ?w = "timerFires (handleSubmit (initial\<lparr>url := js ''youtu.be/a''\<rparr>))"
  have r: "result ?w = Some mockResult"
    using valid_a by (simp add: handleSubmit_valid timerFires_def timeoutCallback_def initial_def)
  from export_transcript_verbatim [OF r, of "[type_json, type_transcript]"] r show ?thesis by blast
qed

text \<open>
  C9: the callback of the mock backend always stores the same result, whatever URL was
  submitted; it is a complete AnalysisResult whose talkTimeRatio is between 0 and 100,
  whose questionsCount and longestMonologue are not negative and whose sentiment is one of
  the three values.
\<close>

theorem mock_backend_fixed_result:
  "result (timeoutCallback w) = Some mockResult
   \<and> (validateUrl (url w) \<longrightarrow> result (timerFires (handleSubmit w)) = Some mockResult)
   \<and> 0 \<le> talkTimeRatio mockResult \<and> talkTimeRatio mockResult \<le> 100
   \<and> 0 \<le> questionsCount mockResult \<and> 0 \<le> longestMonologue mockResult
   \<and> sentiment mockResult \<in> {positive, neutral, negative}
   \<and> length (insights mockResult) = 4 \<and> transcript mockResult \<noteq> []"
proof -
  have "validateUrl (url w) \<Longrightarrow> result (timerFires (handleSubmit w)) = Some mockResult"
    by (cases "timers w") (simp_all add: handleSubmit_valid timerFires_def timeoutCallback_def)
  moreover have "result (timeoutCallback w) = Some mockResult"
    by (simp add: timeoutCallback_def)
  moreover have "transcript mockResult \<noteq> []" by (simp add: mockResult_def js_def)
  ultimately show ?thesis by (simp add: mockResult_def)
qed

theorem mock_backend_fixed_result_witness:
  "validateUrl (url (initial\<lparr>url := js ''youtu.be/a''\<rparr>))
   \<and> validateUrl (url (initial\<lparr>url := js ''youtu.be/b''\<rparr>))
   \<and> result (timerFires (handleSubmit (initial\<lparr>url := js ''youtu.be/a''\<rparr>)))
     = result (timerFires (handleSubmit (initial\<lparr>url := js ''youtu.be/b''\<rparr>)))"
proof -
  have a: "validateUrl (url (initial\<lparr>url := js ''youtu.be/a''\<rparr>))" using valid_a by simp
  have b: "validateUrl (url (initial\<lparr>url := js ''youtu.be/b''\<rparr>))" using valid_b by simp
  from mock_backend_fixed_result [of "initial\<lparr>url := js ''youtu.be/a''\<rparr>"]
    mock_backend_fixed_result [of "initial\<lparr>url := js ''youtu.be/b''\<rparr>"] a b
  show ?thesis by presburger
qed

lemma step_one_in_flight: "one_in_flight w \<Longrightarrow> enabled e w \<Longrightarrow> one_in_flight (step e w)"
proof (cases e)
  case Submit
  assume "one_in_flight w" "enabled e w"
  with Submit show ?thesis
    by (cases "validateUrl (url w)")
       (simp_all add: one_in_flight_def handleSubmit_valid handleSubmit_invalid)
next
  case Timeout
  assume "one_in_flight w" "enabled e w"
  with Timeout show ?thesis
    by (cases "timers w") (auto simp: one_in_flight_def timerFires_def timeoutCallback_def split: if_splits)
next
  case (Download t)
  assume "one_in_flight w"
  with Download show ?thesis
    by (auto simp: one_in_flight_def handleDownload_def Let_def split: option.splits if_splits)
qed (simp add: one_in_flight_def)

lemma run_one_in_flight: "gated es w \<Longrightarrow> one_in_flight w \<Longrightarrow> one_in_flight (run es w)"
  by (induction es arbitrary: w) (simp_all add: step_one_in_flight)

lemma overlap_state:
  "run [Change (js ''youtu.be/a''), Submit, Change (js ''youtu.be/b''), Submit] initial
   = \<lparr>url = js ''youtu.be/b'', isLoading = True, result = None, error = None,
      timers = [js ''youtu.be/a'', js ''youtu.be/b''], downloads = []\<rparr>"
  using valid_a valid_b by (simp add: handleSubmit_valid initial_def)

text \<open>
  C2, as the specification words it: when a second submission is made before the first
  call resolves, the resolution of the first call is discarded. The callback carries no
  guard: run after two submissions, the timer of the first one stores the result and ends
  the loading state while the call of the second is still pending.
\<close>

theorem stale_resolution_not_discarded:
  "timers (run [Change (js ''youtu.be/a''), Submit, Change (js ''youtu.be/b''), Submit] initial)
     = [js ''youtu.be/a'', js ''youtu.be/b'']
   \<and> visible (run [Change (js ''youtu.be/a''), Submit, Change (js ''youtu.be/b''), Submit] initial)
     = (True, None, None)
   \<and> visible (timerFires (run [Change (js ''youtu.be/a''), Submit, Change (js ''youtu.be/b''), Submit] initial))
     = (False, Some mockResult, None)
   \<and> timers (timerFires (run [Change (js ''youtu.be/a''), Submit, Change (js ''youtu.be/b''), Submit] initial))
     = [js ''youtu.be/b'']
   \<and> visible (timerFires (run [Change (js ''youtu.be/a''), Submit, Change (js ''youtu.be/b''), Submit] initial))
     \<noteq> visible (run [Change (js ''youtu.be/a''), Submit, Change (js ''youtu.be/b''), Submit] initial)"
  unfolding overlap_state by (simp add: visible_def timerFires_def timeoutCallback_def)

text \<open>
  C2, amended: the page prevents the overlap instead of discarding a resolution. While the
  events are those the page enables (the submit button is disabled while loading), a call
  is pending exactly when the loading flag is set, there is never more than one, and a
  submission is only possible when none is pending; so each resolution belongs to the
  latest cycle.
\<close>

theorem single_call_in_flight_when_gated:
  "gated es initial \<Longrightarrow>
     length (timers (run es initial)) = (if isLoading (run es initial) then 1 else 0)
     \<and> (enabled Submit (run es initial) \<longrightarrow> timers (run es initial) = [])"
proof -
  assume "gated es initial"
  moreover have "one_in_flight initial" by (simp add: one_in_flight_def initial_def)
  ultimately have "one_in_flight (run es initial)" by (rule run_one_in_flight)
  then show ?thesis by (auto simp: one_in_flight_def)
qed

theorem single_call_in_flight_when_gated_witness:
  "gated [Change (js ''youtu.be/a''), Submit, Change (js ''youtu.be/b'')] initial
   \<and> isLoading (run [Change (js ''youtu.be/a''), Submit, Change (js ''youtu.be/b'')] initial)
   \<and> \<not> enabled Submit (run [Change (js ''youtu.be/a''), Submit, Change (js ''youtu.be/b'')] initial)
   \<and> length (timers (run [Change (js ''youtu.be/a''), Submit, Change (js ''youtu.be/b'')] initial)) = 1"
proof -
  let ?es = "[Change (js ''youtu.be/a''), Submit, Change (js ''youtu.be/b'')]"
  have g: "gated ?es initial"
    using valid_a by (simp add: handleSubmit_valid initial_def js_eq_Nil)
  have l: "isLoading (run ?es initial)"
    using valid_a by (simp add: handleSubmit_valid initial_def)
  from single_call_in_flight_when_gated [OF g] g l show ?thesis by simp
qed

lemma step_loading_exclusive:
  "loading_exclusive w \<Longrightarrow> enabled e w \<Longrightarrow> loading_exclusive (step e w)"
proof (cases e)
  case Submit
  assume "loading_exclusive w" "enabled e w"
  with Submit show ?thesis
    by (cases "validateUrl (url w)")
       (simp_all add: loading_exclusive_def handleSubmit_valid handleSubmit_invalid)
next
  case Timeout
  assume "loading_exclusive w"
  with Timeout show ?thesis
    by (cases "timers w") (simp_all add: loading_exclusive_def timerFires_def timeoutCallback_def)
next
  case (Download t)
  assume "loading_exclusive w"
  with Download show ?thesis
    by (auto simp: loading_exclusive_def handleDownload_def Let_def split: option.splits)
qed (simp add: loading_exclusive_def)

text \<open>
  C10, as stated for every handler: handleSubmit run while the page is loading, with a
  URL that is rejected, sets the error and leaves the loading flag set.
\<close>

theorem submit_while_loading_breaks_exclusion:
  "loading_exclusive (run [Change (js ''youtu.be/a''), Submit, Change (js ''x'')] initial)
   \<and> \<not> loading_exclusive (handleSubmit (run [Change (js ''youtu.be/a''), Submit, Change (js ''x'')] initial))"
  using valid_a invalid_x
  by (simp add: handleSubmit_valid handleSubmit_invalid initial_def loading_exclusive_def)

text \<open>
  C10, amended: every event that the page enables keeps the invariant that while the
  loading flag is set both the result and the error are null; so it holds in every state
  the page reaches.
\<close>

theorem loading_exclusive_when_gated:
  "gated es w \<Longrightarrow> loading_exclusive w \<Longrightarrow> loading_exclusive (run es w)"
  by (induction es arbitrary: w) (simp_all add: step_loading_exclusive)

theorem loading_exclusive_when_gated_witness:
  "gated [Change (js ''youtu.be/a''), Submit, Change (js ''x''), Timeout, Download type_transcript, Submit] initial
   \<and> loading_exclusive initial
   \<and> loading_exclusive (run [Change (js ''youtu.be/a''), Submit, Change (js ''x''), Timeout, Download type_transcript, Submit] initial)"
proof -
  let ?es = "[Change (js ''youtu.be/a''), Submit, Change (js ''x''), Timeout, Download type_transcript, Submit]"
  have i: "loading_exclusive initial" by (simp add: loading_exclusive_def initial_def)
  have g: "gated ?es initial"
    using valid_a invalid_x
    by (simp add: handleSubmit_valid handleSubmit_invalid initial_def timerFires_def timeoutCallback_def
        handleDownload_def Let_def js_eq_Nil)
  from loading_exclusive_when_gated [OF g i] g i show ?thesis by blast
qed

section \<open>The structured export\<close>






































































end
